theory Spec2Isabelle
  imports Complex_Main "HOL-Library.Sublist"
begin

section \<open>Conventions of the model\<close>

text \<open>
  The program is the message handler of an MPC steering controller (\<^verbatim>\<open>src/main.cpp\<close>).
  Every \<^verbatim>\<open>double\<close> of the source is a \<^typ>\<open>real\<close> here: \<^verbatim>\<open>+\<close>, \<^verbatim>\<open>*\<close>, \<^verbatim>\<open>/\<close>,
  \<^verbatim>\<open>sin\<close>, \<^verbatim>\<open>cos\<close>, \<^verbatim>\<open>atan\<close>, \<^verbatim>\<open>pow\<close> and \<^verbatim>\<open>M_PI\<close> are the exact operations and the
  exact constant, so rounding, infinities and NaN are outside the model. A
  \<^verbatim>\<open>std::vector<double>\<close> and an \<^verbatim>\<open>Eigen::VectorXd\<close> are a \<^typ>\<open>real list\<close>, an
  \<^verbatim>\<open>Eigen::MatrixXd\<close> is the list of its rows, a \<^verbatim>\<open>std::string\<close> is a \<^typ>\<open>string\<close>.

  Loop counters and indices are natural numbers; no vector is taken to be so long that
  an \<^verbatim>\<open>int\<close> or \<^verbatim>\<open>unsigned int\<close> counter would wrap.

  What stops the handler is a value of \<open>failure\<close>: a failed \<^verbatim>\<open>assert\<close> (the source is
  modelled with assertions compiled in), an exception of the JSON library that nothing
  catches, and a read of a \<^verbatim>\<open>std::vector\<close> beyond its size, which C++ leaves undefined.
\<close>

datatype failure = Assertion_failed | Json_exception | Out_of_bounds

definition bindE :: "failure + 'a \<Rightarrow> ('a \<Rightarrow> failure + 'b) \<Rightarrow> failure + 'b" where
  "bindE m f = (case m of Inl e \<Rightarrow> Inl e | Inr x \<Rightarrow> f x)"

section \<open>Angles\<close>

definition deg2rad :: "real \<Rightarrow> real" where
  "deg2rad x = x * pi / 180"

definition rad2deg :: "real \<Rightarrow> real" where
  "rad2deg x = x * 180 / pi"

section \<open>The string operations \<^verbatim>\<open>hasData\<close> uses\<close>

text \<open>
  \<^verbatim>\<open>s.find(pat)\<close> is the least position at which \<^verbatim>\<open>pat\<close> occurs in \<^verbatim>\<open>s\<close>,
  \<^verbatim>\<open>s.rfind(pat)\<close> the greatest one, \<^verbatim>\<open>s.find_first_of(chars)\<close> the least position
  holding one of the characters; \<^verbatim>\<open>npos\<close> is \<^term>\<open>None\<close>.
  \<^verbatim>\<open>s.substr(pos, n)\<close> is the text of at most \<^verbatim>\<open>n\<close> characters from \<^verbatim>\<open>pos\<close> on; it
  throws only for \<^verbatim>\<open>pos\<close> beyond the size, which a position found in \<^verbatim>\<open>s\<close> never is.
\<close>

fun string_find :: "string \<Rightarrow> string \<Rightarrow> nat option" where
  "string_find [] pat = (if pat = [] then Some 0 else None)"
| "string_find (c # cs) pat =
     (if prefix pat (c # cs) then Some 0 else map_option Suc (string_find cs pat))"

fun string_find_first_of :: "string \<Rightarrow> string \<Rightarrow> nat option" where
  "string_find_first_of [] chars = None"
| "string_find_first_of (c # cs) chars =
     (if c \<in> set chars then Some 0 else map_option Suc (string_find_first_of cs chars))"

fun string_rfind :: "string \<Rightarrow> string \<Rightarrow> nat option" where
  "string_rfind [] pat = (if pat = [] then Some 0 else None)"
| "string_rfind (c # cs) pat =
     (case string_rfind cs pat of
        Some i \<Rightarrow> Some (Suc i)
      | None \<Rightarrow> if prefix pat (c # cs) then Some 0 else None)"

definition string_substr :: "string \<Rightarrow> nat \<Rightarrow> nat \<Rightarrow> string" where
  "string_substr s pos n = take n (drop pos s)"

section \<open>\<^verbatim>\<open>hasData\<close>\<close>

text \<open>
  The count \<^verbatim>\<open>b2 - b1 + 2\<close> is computed in \<^verbatim>\<open>size_t\<close>, taken as 64 bits wide: it wraps
  when the last \<^verbatim>\<open>}]\<close> stands before the first \<^verbatim>\<open>[\<close>.
\<close>

definition hasData :: "string \<Rightarrow> string" where
  "hasData s =
     (let found_null = string_find s ''null'';
          b1 = string_find_first_of s ''['';
          b2 = string_rfind s ''}]''
      in if found_null \<noteq> None then ''''
         else (case (b1, b2) of
                 (Some p1, Some p2) \<Rightarrow>
                   string_substr s p1 (nat ((int p2 - int p1 + 2) mod 2 ^ 64))
               | _ \<Rightarrow> ''''))"

section \<open>\<^verbatim>\<open>polyeval\<close>\<close>

definition polyeval :: "real list \<Rightarrow> real \<Rightarrow> real" where
  "polyeval coeffs x =
     fold (\<lambda>i result. result + coeffs ! i * x ^ i) [0..<length coeffs] 0"

section \<open>Tracking errors and the state with latency\<close>

text \<open>
  Lines 116 to 124: the cross-track error is the fitted polynomial at 0, the orientation
  error is \<^verbatim>\<open>-atan(coeffs[1])\<close>. Indexing an Eigen vector asserts that the index is in
  range.
\<close>

definition tracking_errors :: "real list \<Rightarrow> failure + real \<times> real" where
  "tracking_errors coeffs =
     (let cte = polyeval coeffs 0
      in if 1 < length coeffs then Inr (cte, - arctan (coeffs ! 1))
         else Inl Assertion_failed)"

text \<open>
  Lines 129 to 141, in the order of the source: \<^verbatim>\<open>cte\<close> and \<^verbatim>\<open>epsi\<close> are updated
  from the speed as received, and the speed is updated last.
\<close>

definition latency_state :: "real \<Rightarrow> real \<Rightarrow> real \<Rightarrow> real \<Rightarrow> real \<Rightarrow> real list" where
  "latency_state v0 cte0 epsi0 steer_value throttle_value =
     (let Lf = 2.67;
          dt = 0.1;
          px = v0 * dt;
          py = 0;
          psi = - v0 * steer_value / Lf * dt;
          cte = cte0 + (v0 * sin epsi0 * dt);
          epsi = epsi0 - v0 * steer_value / Lf * dt;
          v = v0 + throttle_value * dt
      in [px, py, psi, v, cte, epsi])"

section \<open>\<^verbatim>\<open>polyfit\<close>\<close>

text \<open>
  The two assertions come first. \<^verbatim>\<open>xvals.size()\<close> is a signed index in Eigen, so
  \<^verbatim>\<open>xvals.size() - 1\<close> is \<open>-1\<close> for an empty vector and the comparison with
  \<^verbatim>\<open>order\<close> is one of integers. The matrix is allocated with \<^verbatim>\<open>order + 1\<close> columns
  (entries 0 here until written), its first column is set to 1, and each row is filled
  from left to right with the powers of its abscissa. The least-squares solution by
  Householder QR is Eigen's; it is the parameter \<open>householderQr_solve\<close>.
\<close>

type_synonym matrix = "real list list"

definition mat_update :: "matrix \<Rightarrow> nat \<Rightarrow> nat \<Rightarrow> real \<Rightarrow> matrix" where
  "mat_update A r c v = A[r := (A ! r)[c := v]]"

definition polyfit ::
  "(matrix \<Rightarrow> real list \<Rightarrow> real list) \<Rightarrow> real list \<Rightarrow> real list \<Rightarrow> int \<Rightarrow> failure + real list" where
  "polyfit householderQr_solve xvals yvals order =
     (if length xvals \<noteq> length yvals then Inl Assertion_failed
      else if \<not> (1 \<le> order \<and> order \<le> int (length xvals) - 1) then Inl Assertion_failed
      else
        let A0 = replicate (length xvals) (replicate (nat (order + 1)) 0);
            A1 = fold (\<lambda>i A. mat_update A i 0 1) [0..<length xvals] A0;
            A2 = fold (\<lambda>j A. fold (\<lambda>i A. mat_update A j (i + 1) (A ! j ! i * xvals ! j))
                                 [0..<nat order] A)
                   [0..<length xvals] A1
        in Inr (householderQr_solve A2 yvals))"

section \<open>From world coordinates to car coordinates\<close>

text \<open>
  Lines 100 to 111. The two Eigen vectors are allocated with \<^verbatim>\<open>ptsx.size()\<close> entries,
  here 0 until the loop writes them (the source leaves them uninitialised and reads none
  of them before it is written). The loop runs over the indices of \<^verbatim>\<open>ptsx\<close> and reads
  \<^verbatim>\<open>ptsy\<close> at the same index, unchecked.
\<close>

fun car_space_loop ::
  "real \<Rightarrow> real \<Rightarrow> real \<Rightarrow> real list \<Rightarrow> real list \<Rightarrow> nat list \<Rightarrow>
     real list \<times> real list \<Rightarrow> failure + real list \<times> real list" where
  "car_space_loop px py psi ptsx ptsy [] (x_car_space, y_car_space) =
     Inr (x_car_space, y_car_space)"
| "car_space_loop px py psi ptsx ptsy (i # rest) (x_car_space, y_car_space) =
     (if i < length ptsy then
        let dtx = ptsx ! i - px;
            dty = ptsy ! i - py
        in car_space_loop px py psi ptsx ptsy rest
             (x_car_space[i := dtx * cos psi + dty * sin psi],
              y_car_space[i := dty * cos psi - dtx * sin psi])
      else Inl Out_of_bounds)"

definition car_space ::
  "real \<Rightarrow> real \<Rightarrow> real \<Rightarrow> real list \<Rightarrow> real list \<Rightarrow> failure + real list \<times> real list" where
  "car_space px py psi ptsx ptsy =
     car_space_loop px py psi ptsx ptsy [0..<length ptsx]
       (replicate (length ptsx) 0, replicate (length ptsx) 0)"

text \<open>
  The way back, which the source does not have: the inverse rotation followed by the
  translation, as the specification words the round trip of a car-frame point.
\<close>

definition world_of_car :: "real \<Rightarrow> real \<Rightarrow> real \<Rightarrow> real \<times> real \<Rightarrow> real \<times> real" where
  "world_of_car px py psi b =
     (px + (fst b * cos psi - snd b * sin psi), py + (fst b * sin psi + snd b * cos psi))"

section \<open>Building the response\<close>

text \<open>
  Lines 146 to 191. \<^verbatim>\<open>vars\<close> is what \<^verbatim>\<open>mpc.Solve\<close> returns, a vector of doubles
  whose \<^verbatim>\<open>operator[]\<close> checks nothing: the reads of \<^verbatim>\<open>vars[0]\<close> and \<^verbatim>\<open>vars[1]\<close>
  are the only places where its length matters. The loop over the predicted
  trajectory starts at index 2 and sorts the entries by the parity of their index.
\<close>

definition vector_at :: "real list \<Rightarrow> nat \<Rightarrow> failure + real" where
  "vector_at xs i = (if i < length xs then Inr (xs ! i) else Inl Out_of_bounds)"

text \<open>The JSON object \<^verbatim>\<open>msgJson\<close>, by its six keys.\<close>

record steer_payload =
  steering_angle :: real
  throttle :: real
  mpc_x :: "real list"
  mpc_y :: "real list"
  next_x :: "real list"
  next_y :: "real list"

definition mpc_vals :: "real list \<Rightarrow> real list \<times> real list" where
  "mpc_vals vars =
     fold (\<lambda>i (mpc_x_vals, mpc_y_vals).
             if i mod 2 = 0 then (mpc_x_vals @ [vars ! i], mpc_y_vals)
             else (mpc_x_vals, mpc_y_vals @ [vars ! i]))
       [2..<length vars] ([], [])"

definition next_vals :: "real list \<Rightarrow> real list \<times> real list" where
  "next_vals coeffs =
     (let poly_inc = 2.5;
          num_points = 25
      in fold (\<lambda>i (next_x_vals, next_y_vals).
                 (next_x_vals @ [poly_inc * real i],
                  next_y_vals @ [polyeval coeffs (poly_inc * real i)]))
           [0..<num_points] ([], []))"

definition build_response :: "real list \<Rightarrow> real list \<Rightarrow> failure + steer_payload" where
  "build_response vars coeffs =
     bindE (vector_at vars 0) (\<lambda>vars0.
     bindE (vector_at vars 1) (\<lambda>vars1.
       let Lf = 2.67;
           steer_value = - vars0;
           throttle_value = vars1;
           (mpc_x_vals, mpc_y_vals) = mpc_vals vars;
           (next_x_vals, next_y_vals) = next_vals coeffs
       in Inr \<lparr>steering_angle = steer_value / (deg2rad 25 * Lf),
                throttle = throttle_value,
                mpc_x = mpc_x_vals, mpc_y = mpc_y_vals,
                next_x = next_x_vals, next_y = next_y_vals\<rparr>))"

section \<open>The message handler\<close>

text \<open>
  What the handler calls and \<^verbatim>\<open>src/\<close> does not hold is a parameter of the model:
  the JSON library (\<^verbatim>\<open>json::parse\<close>; \<^verbatim>\<open>j[0].get<string>()\<close>; the conversions of
  \<^verbatim>\<open>j[1][key]\<close> to a vector of doubles and to a double, each of which can throw;
  \<^verbatim>\<open>msgJson.dump()\<close>), Eigen's QR solver and \<^verbatim>\<open>MPC::Solve\<close>, taken as a function of
  the state and the coefficients. \<open>'j\<close> is the type of a parsed document.
\<close>

record 'j collaborators =
  json_parse :: "string \<Rightarrow> failure + 'j"
  json_event :: "'j \<Rightarrow> failure + string"
  json_doubles :: "'j \<Rightarrow> string \<Rightarrow> failure + real list"
  json_double :: "'j \<Rightarrow> string \<Rightarrow> failure + real"
  householderQr_solve :: "matrix \<Rightarrow> real list \<Rightarrow> real list"
  mpc_Solve :: "real list \<Rightarrow> real list \<Rightarrow> real list"
  json_dump :: "steer_payload \<Rightarrow> string"

text \<open>
  Lines 90 to 205, the branch of a telemetry event, in the order of the source: the
  steering angle and the throttle are read after the fit. The result is the text handed
  to \<^verbatim>\<open>ws.send\<close>. The two \<^verbatim>\<open>cout\<close> lines and the sleep of 100 ms are not modelled.
\<close>

definition telemetry_cycle :: "'j collaborators \<Rightarrow> 'j \<Rightarrow> failure + string" where
  "telemetry_cycle env j =
     bindE (json_doubles env j ''ptsx'') (\<lambda>ptsx.
     bindE (json_doubles env j ''ptsy'') (\<lambda>ptsy.
     bindE (json_double env j ''x'') (\<lambda>px.
     bindE (json_double env j ''y'') (\<lambda>py.
     bindE (json_double env j ''psi'') (\<lambda>psi.
     bindE (json_double env j ''speed'') (\<lambda>v.
     bindE (car_space px py psi ptsx ptsy) (\<lambda>(x_car_space, y_car_space).
     bindE (polyfit (householderQr_solve env) x_car_space y_car_space 3) (\<lambda>coeffs.
     bindE (tracking_errors coeffs) (\<lambda>(cte, epsi).
     bindE (json_double env j ''steering_angle'') (\<lambda>steer_value.
     bindE (json_double env j ''throttle'') (\<lambda>throttle_value.
       let state = latency_state v cte epsi steer_value throttle_value;
           vars = mpc_Solve env state coeffs
       in bindE (build_response vars coeffs) (\<lambda>msgJson.
            Inr (''42[\"steer\",'' @ json_dump env msgJson @ '']'')))))))))))))"

text \<open>
  Lines 81 to 212, from the message text \<^verbatim>\<open>sdata\<close> of line 79 on. The result is the
  message sent on the socket, if any.
\<close>

definition onMessage :: "'j collaborators \<Rightarrow> string \<Rightarrow> failure + string option" where
  "onMessage env sdata =
     (if length sdata > 2 \<and> sdata ! 0 = CHR ''4'' \<and> sdata ! 1 = CHR ''2'' then
        let s = hasData sdata
        in if s \<noteq> '''' then
             bindE (json_parse env s) (\<lambda>j.
             bindE (json_event env j) (\<lambda>event.
               if event = ''telemetry'' then
                 bindE (telemetry_cycle env j) (\<lambda>msg. Inr (Some msg))
               else Inr None))
           else Inr (Some ''42[\"manual\",{}]'')
      else Inr None)"

section \<open>Polynomial evaluation\<close>

lemma fold_add_sum:
  "fold (\<lambda>i (r::real). r + f i) [a..<b] acc = acc + sum f {a..<b}"
proof (induction b arbitrary: acc)
  case 0
  then show ?case by simp
next
  case (Suc b)
  show ?case
  proof (cases "a \<le> b")
    case True
    then show ?thesis
      using Suc.IH [of acc] by (simp add: sum.atLeastLessThan_Suc add.assoc)
  next
    case False
    then show ?thesis by simp
  qed
qed

lemma polyeval_sum:
  "polyeval coeffs x = (\<Sum>i = 0..<length coeffs. coeffs ! i * x ^ i)"
  by (simp add: polyeval_def fold_add_sum)

lemma polyeval_at_0: "polyeval (c # cs) 0 = c"
proof -
  have "polyeval (c # cs) 0 = (\<Sum>i = 0..<Suc (length cs). (c # cs) ! i * 0 ^ i)"
    by (simp add: polyeval_sum)
  also have "\<dots> = (c # cs) ! 0 * 0 ^ 0 + (\<Sum>i = Suc 0..<Suc (length cs). (c # cs) ! i * 0 ^ i)"
    by (simp add: sum.atLeast_Suc_lessThan)
  also have "(\<Sum>i = Suc 0..<Suc (length cs). (c # cs) ! i * (0::real) ^ i) = 0"
    by (rule sum.neutral) auto
  finally show ?thesis by simp
qed

section \<open>Claims about the state handed to the optimizer\<close>

text \<open>
  C1. For speed \<open>v\<close>, cross-track error \<open>cte\<close>, heading error \<open>epsi\<close>, previous steering
  command \<open>delta\<close> and previous throttle \<open>a\<close>, the six-vector handed to the optimizer is
  \<open>[v*dt, 0, -v*delta/L*dt, v + a*dt, cte + v*sin(epsi)*dt, epsi - v*delta/L*dt]\<close> with
  \<open>L = 2.67\<close> and \<open>dt = 0.1\<close>.
\<close>

theorem latency_state_postcondition:
  "latency_state v cte epsi delta a =
     [v * 0.1, 0, - v * delta / 2.67 * 0.1, v + a * 0.1,
      cte + v * sin epsi * 0.1, epsi - v * delta / 2.67 * 0.1]"
  by (simp add: latency_state_def Let_def)

text \<open>
  C3. For a coefficient vector \<open>[c0, c1, c2, c3]\<close> the cross-track error is \<open>c0\<close> (the
  polynomial at 0 is its constant term) and the heading error is \<open>-atan(c1)\<close>.
\<close>

theorem tracking_errors_postcondition:
  "tracking_errors [c0, c1, c2, c3] = Inr (c0, - arctan c1)"
  by (simp add: tracking_errors_def polyeval_at_0)

text \<open>
  C7, amended. With previous steering 0 and previous throttle 0 the state is
  \<open>[v*dt, 0, 0, v, cte + v*sin(epsi)*dt, epsi]\<close>: y, heading, speed and heading error
  keep their values, and the cross-track error keeps its value when \<open>v * sin(epsi) = 0\<close>.
\<close>

theorem latency_state_coast:
  "latency_state v cte epsi 0 0 = [v * 0.1, 0, 0, v, cte + v * sin epsi * 0.1, epsi] \<and>
   (v * sin epsi = 0 \<longrightarrow> latency_state v cte epsi 0 0 = [v * 0.1, 0, 0, v, cte, epsi])"
  by (simp add: latency_state_def Let_def)

theorem latency_state_coast_witness:
  "(2::real) * sin 0 = 0 \<and> latency_state 2 1 0 0 0 = [2 * 0.1, 0, 0, 2, 1, 0]"
  using latency_state_coast [of 2 1 0] by simp

text \<open>
  C7 as stated fails: at speed 1 and heading error \<open>pi/2\<close>, with no steering and no
  throttle, the cross-track error moves from 0 to 0.1.
\<close>

theorem latency_state_coast_counterexample:
  "latency_state 1 0 (pi / 2) 0 0 = [1 / 10, 0, 0, 1, 1 / 10, pi / 2] \<and>
   latency_state 1 0 (pi / 2) 0 0 \<noteq> [1 / 10, 0, 0, 1, 0, pi / 2]"
  by (simp add: latency_state_def Let_def)

section \<open>The coordinate transform\<close>

lemma fold_update_length:
  "length (fold (\<lambda>i xs. xs[i := f i]) js xs) = length xs"
  by (induction js arbitrary: xs) auto

lemma fold_update_nth:
  "j < length xs \<Longrightarrow>
   fold (\<lambda>i xs. xs[i := f i]) js xs ! j = (if j \<in> set js then f j else xs ! j)"
proof (induction js arbitrary: xs)
  case Nil
  then show ?case by simp
next
  case (Cons a js)
  have "j < length (xs[a := f a])" using Cons.prems by simp
  from Cons.IH [OF this] show ?case
    using Cons.prems by (auto simp: nth_list_update)
qed

lemma fold_update_all:
  "length xs = n \<Longrightarrow> fold (\<lambda>i xs. xs[i := f i]) [0..<n] xs = map f [0..<n]"
  by (rule nth_equalityI) (simp_all add: fold_update_length fold_update_nth)

lemma car_space_loop_fold:
  "\<forall>i \<in> set js. i < length ptsy \<Longrightarrow>
   car_space_loop px py psi ptsx ptsy js (xs, ys) =
     Inr (fold (\<lambda>i xs. xs[i := (ptsx ! i - px) * cos psi + (ptsy ! i - py) * sin psi]) js xs,
          fold (\<lambda>i ys. ys[i := (ptsy ! i - py) * cos psi - (ptsx ! i - px) * sin psi]) js ys)"
  by (induction js arbitrary: xs ys) (simp_all add: Let_def)

lemma car_space_indexed:
  assumes "length ptsx \<le> length ptsy"
  shows "car_space px py psi ptsx ptsy =
     Inr (map (\<lambda>i. (ptsx ! i - px) * cos psi + (ptsy ! i - py) * sin psi) [0..<length ptsx],
          map (\<lambda>i. (ptsy ! i - py) * cos psi - (ptsx ! i - px) * sin psi) [0..<length ptsx])"
proof -
  have "\<forall>i \<in> set [0..<length ptsx]. i < length ptsy"
    using assms by auto
  then show ?thesis
    unfolding car_space_def
    by (simp only: car_space_loop_fold) (simp add: fold_update_all)
qed

lemma car_space_short_ptsy:
  assumes "length ptsy < length ptsx"
  shows "car_space px py psi ptsx ptsy = Inl Out_of_bounds"
proof -
  have loop: "car_space_loop px py psi ptsx ptsy [k..<n] (xs, ys) = Inl Out_of_bounds"
    if "k \<le> length ptsy" "length ptsy < n" for k n xs ys
    using that
  proof (induction "length ptsy - k" arbitrary: k xs ys)
    case 0
    then have "[k..<n] = k # [Suc k..<n]" "\<not> k < length ptsy"
      by (auto simp: upt_conv_Cons)
    then show ?case by simp
  next
    case (Suc d)
    then have "[k..<n] = k # [Suc k..<n]" "k < length ptsy"
      by (auto simp: upt_conv_Cons)
    moreover have "d = length ptsy - Suc k" "Suc k \<le> length ptsy"
      using Suc.hyps(2) by auto
    ultimately show ?case
      using Suc.hyps(1) [of "Suc k"] Suc.prems by (simp add: Let_def)
  qed
  show ?thesis
    unfolding car_space_def using assms by (intro loop) auto
qed

lemma car_space_points:
  "car_space px py psi (map fst pts) (map snd pts) =
     Inr (map (\<lambda>w. (fst w - px) * cos psi + (snd w - py) * sin psi) pts,
          map (\<lambda>w. (snd w - py) * cos psi - (fst w - px) * sin psi) pts)"
proof -
  have "car_space px py psi (map fst pts) (map snd pts) =
     Inr (map (\<lambda>i. (map fst pts ! i - px) * cos psi + (map snd pts ! i - py) * sin psi)
            [0..<length pts],
          map (\<lambda>i. (map snd pts ! i - py) * cos psi - (map fst pts ! i - px) * sin psi)
            [0..<length pts])"
    using car_space_indexed [of "map fst pts" "map snd pts" px py psi] by simp
  moreover have "map (\<lambda>i. (map fst pts ! i - px) * cos psi + (map snd pts ! i - py) * sin psi)
       [0..<length pts] = map (\<lambda>w. (fst w - px) * cos psi + (snd w - py) * sin psi) pts"
    by (rule nth_equalityI) simp_all
  moreover have "map (\<lambda>i. (map snd pts ! i - py) * cos psi - (map fst pts ! i - px) * sin psi)
       [0..<length pts] = map (\<lambda>w. (snd w - py) * cos psi - (fst w - px) * sin psi) pts"
    by (rule nth_equalityI) simp_all
  ultimately show ?thesis by simp
qed

lemma rotate_back:
  fixes a b c s :: real
  assumes "c * c + s * s = 1"
  shows "(a * c + b * s) * c - (b * c - a * s) * s = a"
    and "(a * c + b * s) * s + (b * c - a * s) * c = b"
proof -
  have "(a * c + b * s) * c - (b * c - a * s) * s = a * (c * c + s * s)"
    by (simp add: algebra_simps)
  then show "(a * c + b * s) * c - (b * c - a * s) * s = a"
    using assms by simp
  have "(a * c + b * s) * s + (b * c - a * s) * c = b * (c * c + s * s)"
    by (simp add: algebra_simps)
  then show "(a * c + b * s) * s + (b * c - a * s) * c = b"
    using assms by simp
qed

lemma world_of_car_inverse:
  "world_of_car px py psi
     ((wx - px) * cos psi + (wy - py) * sin psi, (wy - py) * cos psi - (wx - px) * sin psi) =
   (wx, wy)"
proof -
  have unit: "cos psi * cos psi + sin psi * sin psi = 1"
    by simp
  show ?thesis
    unfolding world_of_car_def fst_conv snd_conv
    by (simp only: rotate_back [OF unit]) simp
qed

text \<open>
  C2. For every position \<open>(px, py)\<close>, heading \<open>psi\<close> and sequence of world points, the
  transform yields, point by point and in the same order, \<open>bx = (wx-px)*cos(psi) +
  (wy-py)*sin(psi)\<close> and \<open>by = (wy-py)*cos(psi) - (wx-px)*sin(psi)\<close>.
\<close>

theorem car_space_correct:
  "car_space px py psi (map fst pts) (map snd pts) =
     Inr (map (\<lambda>(wx, wy). (wx - px) * cos psi + (wy - py) * sin psi) pts,
          map (\<lambda>(wx, wy). (wy - py) * cos psi - (wx - px) * sin psi) pts)"
  by (simp add: car_space_points case_prod_unfold)

text \<open>
  C8. For every heading (so for every heading between \<open>-pi\<close> and \<open>pi\<close>), every
  translation and every finite sequence of world points, the transform to the car
  frame followed by the inverse rotation and the translation gives the points back.
\<close>

theorem car_space_round_trip:
  "\<exists>xs ys. car_space px py psi (map fst pts) (map snd pts) = Inr (xs, ys) \<and>
     map (world_of_car px py psi) (zip xs ys) = pts"
proof -
  have "map (world_of_car px py psi)
          (zip (map (\<lambda>w. (fst w - px) * cos psi + (snd w - py) * sin psi) pts)
               (map (\<lambda>w. (snd w - py) * cos psi - (fst w - px) * sin psi) pts)) = pts"
    by (induction pts) (simp_all add: world_of_car_inverse)
  then show ?thesis
    using car_space_points [of px py psi pts] by blast
qed

section \<open>The fitter\<close>

lemma fold_row_length:
  "length (fold (\<lambda>i xs. xs[i := g i (xs ! i)]) js xs) = length xs"
  by (induction js arbitrary: xs) auto

lemma fold_row_nth:
  "distinct js \<Longrightarrow> j < length xs \<Longrightarrow>
   fold (\<lambda>i xs. xs[i := g i (xs ! i)]) js xs ! j = (if j \<in> set js then g j (xs ! j) else xs ! j)"
proof (induction js arbitrary: xs)
  case Nil
  then show ?case by simp
next
  case (Cons a js)
  let ?ys = "xs[a := g a (xs ! a)]"
  have len: "j < length ?ys" using Cons.prems by simp
  have IH: "fold (\<lambda>i xs. xs[i := g i (xs ! i)]) js ?ys ! j =
              (if j \<in> set js then g j (?ys ! j) else ?ys ! j)"
    using Cons.IH [OF _ len] Cons.prems by simp
  show ?case
  proof (cases "a = j")
    case True
    then have "j \<notin> set js" using Cons.prems by auto
    then show ?thesis using IH True Cons.prems by simp
  next
    case False
    then have "?ys ! j = xs ! j" by simp
    then show ?thesis using IH False by auto
  qed
qed

lemma fold_row_all:
  "length xs = n \<Longrightarrow>
   fold (\<lambda>i xs. xs[i := g i (xs ! i)]) [0..<n] xs = map (\<lambda>i. g i (xs ! i)) [0..<n]"
  by (rule nth_equalityI) (simp_all add: fold_row_length fold_row_nth)

lemma inner_loop_row:
  "j < length A \<Longrightarrow>
   fold (\<lambda>i A. mat_update A j (Suc i) (A ! j ! i * x)) ks A =
   A[j := fold (\<lambda>i row. row[Suc i := row ! i * x]) ks (A ! j)]"
  by (induction ks arbitrary: A) (simp_all add: mat_update_def)

lemma inner_loop_cong:
  "fold (\<lambda>j A. fold (\<lambda>i A. mat_update A j (Suc i) (A ! j ! i * f j)) ks A) js A =
   fold (\<lambda>j A. A[j := fold (\<lambda>i row. row[Suc i := row ! i * f j]) ks (A ! j)]) js A"
proof (induction js arbitrary: A)
  case Nil
  then show ?case by simp
next
  case (Cons j js)
  show ?case
  proof (cases "j < length A")
    case True
    then show ?thesis by (simp add: inner_loop_row Cons.IH)
  next
    case False
    then have "fold (\<lambda>i A. mat_update A j (Suc i) (A ! j ! i * f j)) ks A = A"
      by (induction ks) (simp_all add: mat_update_def list_update_beyond)
    then show ?thesis using False by (simp add: Cons.IH list_update_beyond)
  qed
qed

lemma powers_row_take:
  fixes row :: "real list"
  shows "k < length row \<Longrightarrow> row ! 0 = 1 \<Longrightarrow>
   length (fold (\<lambda>i row. row[Suc i := row ! i * x]) [0..<k] row) = length row \<and>
   take (Suc k) (fold (\<lambda>i row. row[Suc i := row ! i * x]) [0..<k] row) = map (\<lambda>i. x ^ i) [0..<Suc k]"
proof (induction k)
  case 0
  then show ?case by (cases row) simp_all
next
  case (Suc k)
  let ?r = "fold (\<lambda>i row. row[Suc i := row ! i * x]) [0..<k] row"
  have len: "length ?r = length row"
    and tk: "take (Suc k) ?r = map (\<lambda>i. x ^ i) [0..<Suc k]"
    using Suc by simp_all
  have "?r ! k = take (Suc k) ?r ! k" by simp
  also have "\<dots> = x ^ k" unfolding tk by (simp add: nth_append)
  finally have rk: "?r ! k = x ^ k" .
  have "x ^ k * x = x ^ Suc k" by (rule power_Suc2 [symmetric])
  then have step: "fold (\<lambda>i row. row[Suc i := row ! i * x]) [0..<Suc k] row = ?r[Suc k := x ^ Suc k]"
    using rk by (simp del: power_Suc)
  have "take (Suc (Suc k)) (?r[Suc k := x ^ Suc k]) = take (Suc k) ?r @ [x ^ Suc k]"
    using Suc.prems len by (simp add: take_Suc_conv_app_nth [of "Suc k"] del: power_Suc)
  also have "\<dots> = map (\<lambda>i. x ^ i) [0..<Suc (Suc k)]"
    unfolding tk by (simp del: power_Suc)
  finally show ?case
    unfolding step using len by (simp del: power_Suc)
qed

lemma powers_row:
  fixes row :: "real list"
  assumes "length row = Suc m" "row ! 0 = 1"
  shows "fold (\<lambda>i row. row[Suc i := row ! i * x]) [0..<m] row = map (\<lambda>i. x ^ i) [0..<Suc m]"
proof -
  let ?r = "fold (\<lambda>i row. row[Suc i := row ! i * x]) [0..<m] row"
  have "m < length row" using assms by simp
  from powers_row_take [OF this assms(2), of x]
  have "length ?r = Suc m" "take (Suc m) ?r = map (\<lambda>i. x ^ i) [0..<Suc m]"
    using assms(1) by simp_all
  then show ?thesis using take_all [of ?r "Suc m"] by simp
qed

lemma polyfit_vandermonde:
  assumes "length xvals = length yvals" "1 \<le> order" "order \<le> int (length xvals) - 1"
  shows "polyfit solve xvals yvals order =
    Inr (solve (map (\<lambda>x. map (\<lambda>k. x ^ k) [0..<Suc (nat order)]) xvals) yvals)"
proof -
  define n where "n = length xvals"
  define m where "m = nat order"
  define A0 :: matrix where "A0 = replicate n (replicate (Suc m) 0)"
  define A1 where "A1 = fold (\<lambda>i A. mat_update A i 0 1) [0..<n] A0"
  define A2 where "A2 = fold (\<lambda>j A. fold (\<lambda>i A. mat_update A j (i + 1) (A ! j ! i * xvals ! j))
                                 [0..<m] A) [0..<n] A1"
  have cols: "nat (order + 1) = Suc m" using assms(2) by (simp add: m_def nat_add_distrib)
  have A1: "A1 = replicate n (1 # replicate m 0)"
  proof -
    have "A1 = fold (\<lambda>i A. A[i := (A ! i)[0 := 1]]) [0..<n] A0"
      by (simp add: A1_def mat_update_def)
    also have "\<dots> = map (\<lambda>i. (A0 ! i)[0 := 1]) [0..<n]"
      by (rule fold_row_all) (simp add: A0_def)
    also have "\<dots> = replicate n (1 # replicate m 0)"
      by (rule nth_equalityI) (simp_all add: A0_def)
    finally show ?thesis .
  qed
  have A2: "A2 = map (\<lambda>x. map (\<lambda>k. x ^ k) [0..<Suc m]) xvals"
  proof -
    have "A2 = fold (\<lambda>j A. A[j := fold (\<lambda>i row. row[Suc i := row ! i * xvals ! j]) [0..<m] (A ! j)])
                 [0..<n] A1"
      unfolding A2_def by (simp add: inner_loop_cong)
    also have "\<dots> = map (\<lambda>j. fold (\<lambda>i row. row[Suc i := row ! i * xvals ! j]) [0..<m] (A1 ! j))
                 [0..<n]"
      by (rule fold_row_all) (simp add: A1)
    also have "\<dots> = map (\<lambda>j. map (\<lambda>k. (xvals ! j) ^ k) [0..<Suc m]) [0..<n]"
      by (rule map_cong [OF refl], rule powers_row) (simp_all add: A1)
    also have "\<dots> = map (\<lambda>x. map (\<lambda>k. x ^ k) [0..<Suc m]) xvals"
      by (rule nth_equalityI) (simp_all add: n_def)
    finally show ?thesis .
  qed
  show ?thesis
    using assms cols A1 A2
    by (simp add: polyfit_def Let_def A2_def A1_def A0_def n_def m_def)
qed

text \<open>
  C6. Whenever the number of points is at most the degree, or the two vectors differ in
  length, \<^verbatim>\<open>polyfit\<close> stops at an assertion: it returns no coefficient vector, of
  this degree or of a lower one.
\<close>

theorem polyfit_rejects:
  "int (length xvals) \<le> d \<or> length xvals \<noteq> length yvals \<Longrightarrow>
   polyfit solve xvals yvals d = Inl Assertion_failed"
  by (auto simp: polyfit_def)

theorem polyfit_rejects_witness:
  "int (length [0, 1, 2 :: real]) \<le> 3 \<and>
   polyfit (\<lambda>A b. b) [0, 1, 2] [0, 0, 0] 3 = Inl Assertion_failed \<and>
   length [0, 1, 2, 3 :: real] \<noteq> length [0, 0, 0 :: real] \<and>
   polyfit (\<lambda>A b. b) [0, 1, 2, 3] [0, 0, 0] 3 = Inl Assertion_failed"
  using polyfit_rejects [of "[0, 1, 2]" 3 "[0, 0, 0]" "\<lambda>A b. b"]
    polyfit_rejects [of "[0, 1, 2, 3]" 3 "[0, 0, 0]" "\<lambda>A b. b"]
  by simp

section \<open>Sums\<close>

lemma bindE_Inr_iff: "bindE m f = Inr y \<longleftrightarrow> (\<exists>x. m = Inr x \<and> f x = Inr y)"
  by (cases m) (simp_all add: bindE_def)

lemma bindE_Inr [simp]: "bindE (Inr x) f = f x"
  by (simp add: bindE_def)

lemma bindE_Inl [simp]: "bindE (Inl e) f = Inl e"
  by (simp add: bindE_def)

section \<open>Searching a string\<close>

lemma string_find_None_iff: "string_find s pat = None \<longleftrightarrow> \<not> sublist pat s"
  by (induction s) (auto simp: sublist_Cons_right)

lemma string_find_Some:
  "string_find s pat = Some i \<Longrightarrow>
     i \<le> length s \<and> prefix pat (drop i s) \<and> (\<forall>k<i. \<not> prefix pat (drop k s))"
proof (induction s arbitrary: i)
  case Nil
  then show ?case by (simp split: if_splits)
next
  case (Cons c cs)
  show ?case
  proof (cases "prefix pat (c # cs)")
    case True
    then show ?thesis using Cons.prems by simp
  next
    case False
    then obtain i' where i': "string_find cs pat = Some i'" "i = Suc i'"
      using Cons.prems by auto
    from Cons.IH [OF i'(1)] False i'(2) show ?thesis
      by (auto simp: less_Suc_eq_0_disj)
  qed
qed

lemma string_find_first_of_Some:
  "string_find_first_of s chars = Some i \<Longrightarrow>
     i < length s \<and> s ! i \<in> set chars \<and> (\<forall>k<i. s ! k \<notin> set chars)"
proof (induction s arbitrary: i)
  case Nil
  then show ?case by simp
next
  case (Cons c cs)
  show ?case
  proof (cases "c \<in> set chars")
    case True
    then show ?thesis using Cons.prems by simp
  next
    case False
    then obtain i' where i': "string_find_first_of cs chars = Some i'" "i = Suc i'"
      using Cons.prems by auto
    from Cons.IH [OF i'(1)] False i'(2) show ?thesis
      by (auto simp: less_Suc_eq_0_disj)
  qed
qed

lemma string_rfind_None_iff: "string_rfind s pat = None \<longleftrightarrow> \<not> sublist pat s"
  by (induction s) (auto simp: sublist_Cons_right split: option.splits)

lemma prefix_drop_sublist: "prefix pat (drop k s) \<Longrightarrow> sublist pat s"
proof -
  assume "prefix pat (drop k s)"
  then have "sublist pat (drop k s)" by (rule prefix_imp_sublist)
  moreover have "sublist (drop k s) s" by (rule sublist_drop)
  ultimately show ?thesis by (rule sublist_order.order.trans)
qed

lemma string_rfind_Some:
  "string_rfind s pat = Some i \<Longrightarrow>
     i \<le> length s \<and> prefix pat (drop i s) \<and>
     (\<forall>k. i < k \<and> k \<le> length s \<longrightarrow> \<not> prefix pat (drop k s))"
proof (induction s arbitrary: i)
  case Nil
  then show ?case by (simp split: if_splits)
next
  case (Cons c cs)
  show ?case
  proof (cases "string_rfind cs pat")
    case None
    then have i: "i = 0" "prefix pat (c # cs)"
      using Cons.prems by (simp_all split: if_splits)
    have "\<not> prefix pat (drop k (c # cs))" if "0 < k" for k
    proof -
      from that obtain k' where "k = Suc k'" by (cases k) auto
      moreover have "\<not> sublist pat cs" using None by (simp add: string_rfind_None_iff)
      ultimately show ?thesis using prefix_drop_sublist [of pat k' cs] by auto
    qed
    then show ?thesis using i by simp
  next
    case (Some i')
    then have i: "i = Suc i'" using Cons.prems by simp
    have "\<not> prefix pat (drop k (c # cs))" if "i < k" "k \<le> length (c # cs)" for k
    proof -
      from that(1) obtain k' where "k = Suc k'" by (cases k) auto
      then show ?thesis using Cons.IH [OF Some] that i by simp
    qed
    then show ?thesis using Cons.IH [OF Some] i by simp
  qed
qed

lemma hasData_null: "sublist ''null'' s \<Longrightarrow> hasData s = ''''"
  using string_find_None_iff [of s "''null''"] by (simp add: hasData_def)

lemma hasData_example_data: "hasData ''42[\"manual\",{}]'' = ''[\"manual\",{}]''"
  by (simp add: hasData_def string_substr_def)

lemma hasData_example_wrap: "hasData ''42}]x['' = ''[''"
  by (simp add: hasData_def string_substr_def)

lemma hasData_data:
  assumes "\<not> sublist ''null'' s" "length s < 2 ^ 64"
    and "string_find_first_of s ''['' = Some p1" "string_rfind s ''}]'' = Some p2"
    and "p1 \<le> p2"
  shows "hasData s = take (p2 + 2 - p1) (drop p1 s)"
proof -
  have "prefix ''}]'' (drop p2 s)" using string_rfind_Some [OF assms(4)] by simp
  then have "length ''}]'' \<le> length (drop p2 s)" by (rule prefix_length_le)
  then have "p2 + 2 \<le> length s" by simp
  then have small: "int p2 - int p1 + 2 < 2 ^ 64"
    using assms(2) by simp
  have "int p2 - int p1 + 2 = int (p2 + 2 - p1)"
    using assms(5) by simp
  moreover have "0 \<le> int p2 - int p1 + 2" using assms(5) by simp
  ultimately have "nat ((int p2 - int p1 + 2) mod 2 ^ 64) = p2 + 2 - p1"
    using small by simp
  moreover have "string_find s ''null'' = None"
    using assms(1) by (simp add: string_find_None_iff)
  ultimately show ?thesis
    using assms(3,4) by (simp add: hasData_def string_substr_def)
qed

section \<open>The handler\<close>

lemma onMessage_no_data:
  assumes "prefix ''42'' sdata" "2 < length sdata" "hasData sdata = ''''"
  shows "onMessage env sdata = Inr (Some ''42[\"manual\",{}]'')"
proof -
  obtain rest where "sdata = ''42'' @ rest"
    using assms(1) by (auto simp: prefix_def)
  then have "sdata ! 0 = CHR ''4''" "sdata ! 1 = CHR ''2''"
    by simp_all
  then show ?thesis
    using assms(2,3) by (simp add: onMessage_def)
qed

lemma onMessage_other_event:
  assumes "prefix ''42'' sdata" "2 < length sdata" "hasData sdata \<noteq> ''''"
    and "json_parse env (hasData sdata) = Inr j" "json_event env j = Inr event"
    and "event \<noteq> ''telemetry''"
  shows "onMessage env sdata = Inr None"
proof -
  obtain rest where "sdata = ''42'' @ rest"
    using assms(1) by (auto simp: prefix_def)
  then have "sdata ! 0 = CHR ''4''" "sdata ! 1 = CHR ''2''"
    by simp_all
  then show ?thesis
    using assms(2-) by (simp add: onMessage_def)
qed

lemma telemetry_cycle_steer:
  "telemetry_cycle env j = Inr msg \<Longrightarrow> \<exists>payload. msg = ''42[\"steer\",'' @ payload @ '']''"
  unfolding telemetry_cycle_def
  by (auto simp: bindE_Inr_iff Let_def split: prod.splits)

text \<open>
  A telemetry cycle that sends a message has read every field, fitted the car-frame
  points with degree 3 and called the optimizer on the state with latency.
\<close>

lemma telemetry_cycle_Inr:
  assumes "telemetry_cycle env j = Inr msg"
  shows "\<exists>ptsx ptsy px py psi v x_car_space y_car_space coeffs cte epsi steer_value
            throttle_value msgJson.
    json_doubles env j ''ptsx'' = Inr ptsx \<and> json_doubles env j ''ptsy'' = Inr ptsy \<and>
    json_double env j ''x'' = Inr px \<and> json_double env j ''y'' = Inr py \<and>
    json_double env j ''psi'' = Inr psi \<and> json_double env j ''speed'' = Inr v \<and>
    car_space px py psi ptsx ptsy = Inr (x_car_space, y_car_space) \<and>
    polyfit (householderQr_solve env) x_car_space y_car_space 3 = Inr coeffs \<and>
    tracking_errors coeffs = Inr (cte, epsi) \<and>
    json_double env j ''steering_angle'' = Inr steer_value \<and>
    json_double env j ''throttle'' = Inr throttle_value \<and>
    build_response
      (mpc_Solve env (latency_state v cte epsi steer_value throttle_value) coeffs) coeffs =
      Inr msgJson \<and>
    msg = ''42[\"steer\",'' @ json_dump env msgJson @ '']''"
  using assms unfolding telemetry_cycle_def
  by (auto simp: bindE_Inr_iff Let_def split: prod.splits)

section \<open>Decoding the optimizer's result\<close>

lemma mpc_loop_filter:
  "fold (\<lambda>i (mpc_x_vals, mpc_y_vals).
           if i mod 2 = 0 then (mpc_x_vals @ [vars ! i], mpc_y_vals)
           else (mpc_x_vals, mpc_y_vals @ [vars ! i])) js (xs, ys) =
   (xs @ map ((!) vars) (filter even js), ys @ map ((!) vars) (filter odd js))"
  by (induction js arbitrary: xs ys) (simp_all add: even_iff_mod_2_eq_zero)

lemma mpc_vals_filter:
  "mpc_vals vars =
     (map ((!) vars) (filter even [2..<length vars]), map ((!) vars) (filter odd [2..<length vars]))"
  by (simp add: mpc_vals_def mpc_loop_filter)

lemma count_even_odd:
  "2 \<le> n \<Longrightarrow> length (filter even [2..<n]) = (n - 1) div 2 \<and>
               length (filter odd [2..<n]) = (n - 2) div 2"
proof (induction n)
  case 0
  then show ?case by simp
next
  case (Suc n)
  show ?case
  proof (cases "n = 1")
    case True
    then show ?thesis by simp
  next
    case False
    then have "2 \<le> n" using Suc.prems by simp
    from Suc.IH [OF this] this
    have "length (filter even [2..<Suc n]) = (n - 1) div 2 + (if even n then 1 else 0)"
      and "length (filter odd [2..<Suc n]) = (n - 2) div 2 + (if odd n then 1 else 0)"
      by simp_all
    moreover have "(n - 1) div 2 + (if even n then 1 else 0) = (Suc n - 1) div 2"
      using \<open>2 \<le> n\<close> by (simp split: if_splits) presburger
    moreover have "(n - 2) div 2 + (if odd n then 1 else 0) = (Suc n - 2) div 2"
      using \<open>2 \<le> n\<close> by (simp split: if_splits) presburger
    ultimately show ?thesis by simp
  qed
qed

lemma build_response_Inr:
  assumes "2 \<le> length vars"
  shows "build_response vars coeffs =
     Inr \<lparr>steering_angle = - (vars ! 0) / (deg2rad 25 * 2.67),
           throttle = vars ! 1,
           mpc_x = map ((!) vars) (filter even [2..<length vars]),
           mpc_y = map ((!) vars) (filter odd [2..<length vars]),
           next_x = fst (next_vals coeffs), next_y = snd (next_vals coeffs)\<rparr>"
proof -
  from assms have "vars \<noteq> []" by auto
  with assms show ?thesis
    by (simp add: build_response_def vector_at_def mpc_vals_filter Let_def split: prod.splits)
qed

text \<open>
  C4. For a result \<open>[s, t, x1, y1, x2, y2]\<close> the response carries \<open>mpc_x = [x1, x2]\<close>,
  \<open>mpc_y = [y1, y2]\<close>, the throttle \<open>t\<close> and the steering angle
  \<open>-s / (deg2rad(25) * 2.67)\<close>.
\<close>

theorem build_response_decodes:
  "\<exists>r. build_response [s, t, x1, y1, x2, y2] coeffs = Inr r \<and>
     mpc_x r = [x1, x2] \<and> mpc_y r = [y1, y2] \<and> throttle r = t \<and>
     steering_angle r = - s / (deg2rad 25 * 2.67)"
  by (simp add: build_response_def vector_at_def mpc_vals_def Let_def split: prod.splits)

text \<open>
  C5, amended. A result of length at least 2, odd or even, is decoded without any check:
  \<open>mpc_x\<close> holds the entries at the even indices from 2 on, \<open>mpc_y\<close> those at the odd
  indices from 3 on, and for an odd length \<open>mpc_x\<close> is one longer than \<open>mpc_y\<close>.
\<close>

theorem build_response_unchecked:
  assumes "2 \<le> length vars"
  shows "\<exists>r. build_response vars coeffs = Inr r \<and>
     mpc_x r = map ((!) vars) (filter even [2..<length vars]) \<and>
     mpc_y r = map ((!) vars) (filter odd [2..<length vars]) \<and>
     (odd (length vars) \<longrightarrow> length (mpc_x r) = Suc (length (mpc_y r)))"
proof -
  have "length (filter even [2..<length vars]) = Suc (length (filter odd [2..<length vars]))"
    if "odd (length vars)"
  proof -
    from that assms have "3 \<le> length vars" by (cases "length vars = 2") auto
    then show ?thesis
      using count_even_odd [OF assms] that by (auto elim!: oddE)
  qed
  then show ?thesis
    using build_response_Inr [OF assms, of coeffs] by simp
qed

theorem build_response_unchecked_witness:
  "2 \<le> length [0, 0, 1, 2, 3 :: real] \<and> odd (length [0, 0, 1, 2, 3 :: real]) \<and>
   (\<exists>r. build_response [0, 0, 1, 2, 3] [0, 0, 0, 0] = Inr r \<and>
        mpc_x r = [1, 3] \<and> mpc_y r = [2] \<and> length (mpc_x r) = Suc (length (mpc_y r)))"
proof -
  have h: "2 \<le> length [0, 0, 1, 2, 3 :: real]" by simp
  have e: "filter even [2..<5] = [2, 4::nat]" "filter odd [2..<5] = [3::nat]"
    by (simp_all add: upt_conv_Cons)
  show ?thesis
    using build_response_unchecked [OF h, of "[0, 0, 0, 0]"] e by auto
qed

text \<open>
  C5 as stated fails: the result \<open>[0, 0, 1]\<close> of length 3 is not rejected; its last
  value is emitted as an x without a y.
\<close>

theorem build_response_odd_counterexample:
  "\<exists>r. build_response [0, 0, 1] [0, 0, 0, 0] = Inr r \<and> mpc_x r = [1] \<and> mpc_y r = []"
  by (simp add: build_response_def vector_at_def mpc_vals_def Let_def split: prod.splits)

section \<open>Events\<close>

text \<open>
  C10. Every message that starts with \<open>42\<close> and contains \<open>null\<close> anywhere makes
  \<^verbatim>\<open>hasData\<close> return the empty string, and the handler answers it with the manual
  acknowledgement \<open>42["manual",{}]\<close>, whatever else the message carries.
\<close>

theorem null_message_manual:
  assumes "prefix ''42'' sdata" "sublist ''null'' sdata"
  shows "hasData sdata = '''' \<and> onMessage env sdata = Inr (Some ''42[\"manual\",{}]'')"
proof -
  have "length ''null'' \<le> length sdata"
    using assms(2) by (rule sublist_length_le)
  then have "2 < length sdata" by simp
  moreover have "hasData sdata = ''''"
    using assms(2) by (rule hasData_null)
  ultimately show ?thesis
    using assms(1) by (simp add: onMessage_no_data)
qed

theorem null_message_manual_witness:
  "prefix ''42'' ''42[\"telemetry\",{\"ptsx\":[0,25,50,75],\"ptsy\":[0,0,0,0],\"x\":0,\"y\":0,\"psi\":0,\"speed\":0,\"steering_angle\":0,\"throttle\":0,\"lap\":null}]'' \<and>
   sublist ''null'' ''42[\"telemetry\",{\"ptsx\":[0,25,50,75],\"ptsy\":[0,0,0,0],\"x\":0,\"y\":0,\"psi\":0,\"speed\":0,\"steering_angle\":0,\"throttle\":0,\"lap\":null}]'' \<and>
   hasData ''42[\"telemetry\",{\"ptsx\":[0,25,50,75],\"ptsy\":[0,0,0,0],\"x\":0,\"y\":0,\"psi\":0,\"speed\":0,\"steering_angle\":0,\"throttle\":0,\"lap\":null}]'' = '''' \<and>
   (\<forall>env :: unit collaborators. onMessage env ''42[\"telemetry\",{\"ptsx\":[0,25,50,75],\"ptsy\":[0,0,0,0],\"x\":0,\"y\":0,\"psi\":0,\"speed\":0,\"steering_angle\":0,\"throttle\":0,\"lap\":null}]'' = Inr (Some ''42[\"manual\",{}]''))"
proof -
  let ?m = "''42[\"telemetry\",{\"ptsx\":[0,25,50,75],\"ptsy\":[0,0,0,0],\"x\":0,\"y\":0,\"psi\":0,\"speed\":0,\"steering_angle\":0,\"throttle\":0,\"lap\":null}]''"
  have p: "prefix ''42'' ?m" by simp
  have s: "sublist ''null'' ?m" by (simp add: sublist_Cons_right)
  show ?thesis
    using p s null_message_manual [OF p s] by blast
qed

text \<open>
  C9, amended. A message of more than two characters that starts with \<open>42\<close> is
  answered with the manual acknowledgement \<open>42["manual",{}]\<close> when \<^verbatim>\<open>hasData\<close> finds
  no data in it; when it carries data whose event is not \<open>telemetry\<close>, nothing is sent.
  Either way the telemetry branch is not entered.
\<close>

theorem onMessage_without_telemetry:
  assumes "2 < length sdata" "prefix ''42'' sdata"
  shows "(hasData sdata = '''' \<longrightarrow> onMessage env sdata = Inr (Some ''42[\"manual\",{}]'')) \<and>
    (hasData sdata \<noteq> '''' \<longrightarrow> json_parse env (hasData sdata) = Inr j \<longrightarrow>
       json_event env j = Inr event \<longrightarrow> event \<noteq> ''telemetry'' \<longrightarrow>
       onMessage env sdata = Inr None)"
  using assms by (auto intro: onMessage_no_data onMessage_other_event)

theorem onMessage_without_telemetry_witness:
  "2 < length ''42[\"manual\"]'' \<and> prefix ''42'' ''42[\"manual\"]'' \<and>
   hasData ''42[\"manual\"]'' = '''' \<and>
   onMessage
     \<lparr>json_parse = Inr, json_event = (\<lambda>j. Inr (take 6 (drop 2 j))),
      json_doubles = (\<lambda>j key. Inl Json_exception), json_double = (\<lambda>j key. Inl Json_exception),
      householderQr_solve = (\<lambda>A b. b), mpc_Solve = (\<lambda>state coeffs. []),
      json_dump = (\<lambda>msgJson. '''')\<rparr>
     ''42[\"manual\"]'' = Inr (Some ''42[\"manual\",{}]'') \<and>
   2 < length ''42[\"manual\",{}]'' \<and> prefix ''42'' ''42[\"manual\",{}]'' \<and>
   hasData ''42[\"manual\",{}]'' \<noteq> '''' \<and>
   json_parse
     \<lparr>json_parse = Inr, json_event = (\<lambda>j. Inr (take 6 (drop 2 j))),
      json_doubles = (\<lambda>j key. Inl Json_exception), json_double = (\<lambda>j key. Inl Json_exception),
      householderQr_solve = (\<lambda>A b. b), mpc_Solve = (\<lambda>state coeffs. []),
      json_dump = (\<lambda>msgJson. '''')\<rparr>
     (hasData ''42[\"manual\",{}]'') = Inr ''[\"manual\",{}]'' \<and>
   json_event
     \<lparr>json_parse = Inr, json_event = (\<lambda>j. Inr (take 6 (drop 2 j))),
      json_doubles = (\<lambda>j key. Inl Json_exception), json_double = (\<lambda>j key. Inl Json_exception),
      householderQr_solve = (\<lambda>A b. b), mpc_Solve = (\<lambda>state coeffs. []),
      json_dump = (\<lambda>msgJson. '''')\<rparr>
     ''[\"manual\",{}]'' = Inr ''manual'' \<and>
   ''manual'' \<noteq> ''telemetry'' \<and>
   onMessage
     \<lparr>json_parse = Inr, json_event = (\<lambda>j. Inr (take 6 (drop 2 j))),
      json_doubles = (\<lambda>j key. Inl Json_exception), json_double = (\<lambda>j key. Inl Json_exception),
      householderQr_solve = (\<lambda>A b. b), mpc_Solve = (\<lambda>state coeffs. []),
      json_dump = (\<lambda>msgJson. '''')\<rparr>
     ''42[\"manual\",{}]'' = Inr None"
proof -
  let ?env = "\<lparr>json_parse = Inr, json_event = (\<lambda>j. Inr (take 6 (drop 2 j))),
      json_doubles = (\<lambda>j key. Inl Json_exception), json_double = (\<lambda>j key. Inl Json_exception),
      householderQr_solve = (\<lambda>A b. b), mpc_Solve = (\<lambda>state coeffs. []),
      json_dump = (\<lambda>msgJson. '''')\<rparr>"
  have d1: "hasData ''42[\"manual\"]'' = ''''"
    by (simp add: hasData_def string_substr_def)
  have d2: "hasData ''42[\"manual\",{}]'' = ''[\"manual\",{}]''"
    by (simp add: hasData_def string_substr_def)
  have "onMessage ?env ''42[\"manual\"]'' = Inr (Some ''42[\"manual\",{}]'')"
    using onMessage_without_telemetry [of "''42[\"manual\"]''" ?env] d1 by simp
  moreover have "onMessage ?env ''42[\"manual\",{}]'' = Inr None"
    using onMessage_without_telemetry
      [of "''42[\"manual\",{}]''" ?env "''[\"manual\",{}]''" "''manual''"] d2
    by simp
  ultimately show ?thesis
    using d1 d2 by simp
qed

text \<open>
  C9 as stated fails: the event \<open>42["manual",{}]\<close> carries data and is not telemetry,
  and whatever the JSON library makes of it, the manual acknowledgement is not sent.
\<close>

theorem onMessage_manual_event_counterexample:
  "\<forall>env :: 'j collaborators.
     onMessage env ''42[\"manual\",{}]'' \<noteq> Inr (Some ''42[\"manual\",{}]'')"
proof
  fix env :: "'j collaborators"
  have d: "hasData ''42[\"manual\",{}]'' = ''[\"manual\",{}]''"
    by (simp add: hasData_def string_substr_def)
  show "onMessage env ''42[\"manual\",{}]'' \<noteq> Inr (Some ''42[\"manual\",{}]'')"
  proof
    assume "onMessage env ''42[\"manual\",{}]'' = Inr (Some ''42[\"manual\",{}]'')"
    then obtain j msg where "telemetry_cycle env j = Inr msg" "msg = ''42[\"manual\",{}]''"
      by (auto simp: onMessage_def d bindE_Inr_iff split: if_splits)
    then show False
      using telemetry_cycle_steer [of env j msg] by auto
  qed
qed

end
